theory Spec2Isabelle
  imports Main "HOL-Library.Multiset"
begin

section \<open>API key rotation: the class \<open>APIKeyManager\<close>\<close>

text \<open>
  The class has three private fields: the pool \<open>keys\<close> (a \<open>string[]\<close>), the rotation
  cursor \<open>currentKeyIndex\<close> and the table \<open>keyRateLimitedUntil\<close>, a
  \<open>Map<number, number>\<close> from pool index to an expiry instant in milliseconds.
  \<open>Date.now()\<close> is the number of milliseconds elapsed since the epoch and is passed to
  every operation as the argument \<open>now\<close>; a duration is any integer.
\<close>

record APIKeyManager =
  keys :: "string list"
  currentKeyIndex :: nat
  keyRateLimitedUntil :: "nat \<rightharpoonup> int"

text \<open>
  The constructor reads \<open>OPENROUTER_API_KEY_1\<close> to \<open>OPENROUTER_API_KEY_5\<close> from the
  environment, keeps the truthy ones (defined and not the empty string) in slot order and
  falls back to \<open>OPENROUTER_API_KEY\<close> when no numbered slot is set.
\<close>

definition slot_names :: "string list" where
  "slot_names = [''OPENROUTER_API_KEY_1'', ''OPENROUTER_API_KEY_2'', ''OPENROUTER_API_KEY_3'',
     ''OPENROUTER_API_KEY_4'', ''OPENROUTER_API_KEY_5'']"

definition truthy_env :: "string option \<Rightarrow> string list" where
  "truthy_env v = (case v of None \<Rightarrow> [] | Some k \<Rightarrow> (if k = [] then [] else [k]))"

definition constructor :: "(string \<rightharpoonup> string) \<Rightarrow> APIKeyManager" where
  "constructor env =
     (let numbered = concat (map (\<lambda>n. truthy_env (env n)) slot_names);
          ks = (if length numbered = 0 then truthy_env (env ''OPENROUTER_API_KEY'') else numbered)
      in \<lparr>keys = ks, currentKeyIndex = 0, keyRateLimitedUntil = Map.empty\<rparr>)"

text \<open>\<open>this.keyRateLimitedUntil.get(i) || 0\<close>: an absent entry and the falsy entry 0 both read 0.\<close>

definition or0 :: "int option \<Rightarrow> int" where
  "or0 v = (case v of None \<Rightarrow> 0 | Some u \<Rightarrow> (if u = 0 then 0 else u))"

text \<open>
  The \<open>for\<close> loop of \<open>getNextAvailableKey\<close>, entered at loop counter \<open>i\<close>. It returns the
  key (or \<open>null\<close>, here \<open>None\<close>) together with the manager as the call leaves it.
\<close>

function scanKeys :: "APIKeyManager \<Rightarrow> nat \<Rightarrow> nat \<Rightarrow> string option \<times> APIKeyManager" where
  "scanKeys m now i =
     (if i < length (keys m) then
        (let keyIndex = (currentKeyIndex m + i) mod length (keys m);
             rateLimitedUntil = or0 (keyRateLimitedUntil m keyIndex)
         in if int now \<ge> rateLimitedUntil
            then (Some (keys m ! keyIndex),
                  m\<lparr>currentKeyIndex := (keyIndex + 1) mod length (keys m)\<rparr>)
            else scanKeys m now (i + 1))
      else (None, m))"
  by pat_completeness auto
termination
  by (relation "measure (\<lambda>(m, now, i). length (keys m) - i)") auto

declare scanKeys.simps [simp del]

definition getNextAvailableKey :: "APIKeyManager \<Rightarrow> nat \<Rightarrow> string option \<times> APIKeyManager" where
  "getNextAvailableKey m now =
     (if length (keys m) = 0 then (None, m) else scanKeys m now 0)"

text \<open>\<open>Array.prototype.indexOf\<close>: the first index holding the value; \<open>None\<close> stands for -1.\<close>

fun indexOf :: "'a list \<Rightarrow> 'a \<Rightarrow> nat option" where
  "indexOf [] k = None"
| "indexOf (x # xs) k = (if x = k then Some 0 else map_option Suc (indexOf xs k))"

definition markKeyAsRateLimited :: "APIKeyManager \<Rightarrow> string \<Rightarrow> int \<Rightarrow> nat \<Rightarrow> APIKeyManager" where
  "markKeyAsRateLimited m key duration now =
     (case indexOf (keys m) key of
        None \<Rightarrow> m
      | Some keyIndex \<Rightarrow>
          m\<lparr>keyRateLimitedUntil := (keyRateLimitedUntil m)(keyIndex \<mapsto> int now + duration)\<rparr>)"

definition allKeysRateLimited :: "APIKeyManager \<Rightarrow> nat \<Rightarrow> bool" where
  "allKeysRateLimited m now =
     list_all (\<lambda>index. int now < or0 (keyRateLimitedUntil m index)) [0..<length (keys m)]"

subsection \<open>Sequences of calls on one manager\<close>

text \<open>
  The manager is a process-wide object; a run of the program is a sequence of calls of
  its three methods, each made at its own clock reading.
\<close>

datatype call = GetNext nat | Penalize string int nat | AllLimited nat

datatype answer = Key "string option" | Unit | Flag bool

fun step :: "APIKeyManager \<Rightarrow> call \<Rightarrow> answer \<times> APIKeyManager" where
  "step m (GetNext now) = (case getNextAvailableKey m now of (k, m') \<Rightarrow> (Key k, m'))"
| "step m (Penalize key duration now) = (Unit, markKeyAsRateLimited m key duration now)"
| "step m (AllLimited now) = (Flag (allKeysRateLimited m now), m)"

fun run :: "APIKeyManager \<Rightarrow> call list \<Rightarrow> answer list \<times> APIKeyManager" where
  "run m [] = ([], m)"
| "run m (c # cs) =
     (case step m c of (a, m') \<Rightarrow> (case run m' cs of (as, m'') \<Rightarrow> (a # as, m'')))"

text \<open>\<open>usable m now i\<close>: the test \<open>now >= rateLimitedUntil\<close> of the scan at pool index \<open>i\<close>.\<close>

definition usable :: "APIKeyManager \<Rightarrow> nat \<Rightarrow> nat \<Rightarrow> bool" where
  "usable m now i = (int now \<ge> or0 (keyRateLimitedUntil m i))"

text \<open>The pool indices in the order the scan visits them.\<close>

definition scan_order :: "APIKeyManager \<Rightarrow> nat list" where
  "scan_order m = map (\<lambda>i. (currentKeyIndex m + i) mod length (keys m)) [0..<length (keys m)]"

text \<open>The outcome of a scan that stops at pool index \<open>j\<close>, or that finds no usable index.\<close>

definition chosen :: "APIKeyManager \<Rightarrow> nat option \<Rightarrow> string option \<times> APIKeyManager" where
  "chosen m r = (case r of None \<Rightarrow> (None, m)
      | Some j \<Rightarrow> (Some (keys m ! j), m\<lparr>currentKeyIndex := (j + 1) mod length (keys m)\<rparr>))"

text \<open>
  \<open>keeps_penalty k e c\<close>: the call \<open>c\<close> does not overwrite the entry of key \<open>k\<close> with an
  expiry earlier than \<open>e\<close>. \<open>penalized_until m k e\<close>: a recognised key \<open>k\<close> has an expiry of
  at least \<open>e\<close> recorded at its first index.
\<close>

fun keeps_penalty :: "string \<Rightarrow> int \<Rightarrow> call \<Rightarrow> bool" where
  "keeps_penalty k e (Penalize k' d' t') = (k' = k \<longrightarrow> e \<le> int t' + d')"
| "keeps_penalty k e (GetNext now) = True"
| "keeps_penalty k e (AllLimited now) = True"

definition penalized_until :: "APIKeyManager \<Rightarrow> string \<Rightarrow> int \<Rightarrow> bool" where
  "penalized_until m k e =
     (case indexOf (keys m) k of None \<Rightarrow> True
      | Some j \<Rightarrow> (case keyRateLimitedUntil m j of None \<Rightarrow> False | Some u \<Rightarrow> e \<le> u))"

section \<open>JSON values\<close>

text \<open>
  A number of the runtime is a double. What the handler does with a number depends on
  whether it is zero, finite or infinite, so a number is one of these: \<open>Zero\<close> (either
  sign), \<open>Infinite negative\<close>, or \<open>Finite m e\<close>, the double nearest to the decimal
  \<open>m * 10 ^ e\<close>. \<open>NaN\<close> is no value of a JSON text.
\<close>

datatype number = Zero | Finite int int | Infinite bool

text \<open>
  The values \<open>JSON.parse\<close> produces. An object is the list of its members in source
  order, a later member hiding an earlier one of the same name. A string is the byte
  string of its text in UTF-8. \<open>undefined\<close> is not a JSON value: a property read that finds
  nothing returns \<open>None\<close>.
\<close>

datatype json =
    JNull
  | JBool bool
  | JNumber number
  | JString string
  | JArray "json list"
  | JObject "(string \<times> json) list"

text \<open>
  \<open>v.name\<close> for a value that is neither \<open>null\<close> nor \<open>undefined\<close>, and for a name that is no
  built-in property of strings, arrays, numbers or booleans (the handler reads
  \<open>choices\<close>, \<open>delta\<close>, \<open>content\<close> and the members of the request body).
\<close>

fun get_prop :: "string \<Rightarrow> json \<Rightarrow> json option" where
  "get_prop name (JObject kvs) = map_of (rev kvs) name"
| "get_prop name v = None"

text \<open>
  \<open>v[0]\<close>: the first element of an array, the member \<open>0\<close> of an object, the first
  character of a string (its first byte here; the handler reads \<open>delta\<close> of the result,
  which no string has).
\<close>

fun item0 :: "json \<Rightarrow> json option" where
  "item0 (JArray xs) = (case xs of [] \<Rightarrow> None | x # rest \<Rightarrow> Some x)"
| "item0 (JString s) = (case s of [] \<Rightarrow> None | c # rest \<Rightarrow> Some (JString [c]))"
| "item0 (JObject kvs) = map_of (rev kvs) ''0''"
| "item0 v = None"

text \<open>\<open>a?.b\<close>: \<open>undefined\<close> when \<open>a\<close> is \<open>null\<close> or \<open>undefined\<close>, the property read otherwise.\<close>

definition optional_chain :: "json option \<Rightarrow> (json \<Rightarrow> json option) \<Rightarrow> json option" where
  "optional_chain a read = (case a of None \<Rightarrow> None | Some v \<Rightarrow> (if v = JNull then None else read v))"

text \<open>The truthiness test of \<open>if (content)\<close> on a JSON value: a number is falsy when it is zero.\<close>

fun truthy :: "json \<Rightarrow> bool" where
  "truthy JNull = False"
| "truthy (JBool b) = b"
| "truthy (JNumber n) = (n \<noteq> Zero)"
| "truthy (JString s) = (s \<noteq> [])"
| "truthy (JArray xs) = True"
| "truthy (JObject kvs) = True"

text \<open>
  \<open>JSON.stringify\<close> writes \<open>null\<close> for \<open>null\<close> and for a number that is not finite, and for
  no other JSON value.
\<close>

fun renders_null :: "json \<Rightarrow> bool" where
  "renders_null JNull = True"
| "renders_null (JNumber (Infinite negative)) = True"
| "renders_null v = False"

subsection \<open>A parser for JSON text\<close>

text \<open>
  \<open>JSON.parse\<close> belongs to the runtime, so the relay below takes the parser as an argument
  and its properties hold for every parser. \<open>JSON_parse\<close> is the grammar of ECMA-404 over
  byte strings, used where a theorem runs the relay on concrete text; \<open>None\<close> is the
  \<open>SyntaxError\<close>.
\<close>

definition is_ws :: "char \<Rightarrow> bool" where
  "is_ws c = (c = CHR '' '' \<or> c = CHR 0x09 \<or> c = CHR 0x0A \<or> c = CHR 0x0D)"

definition skip_ws :: "string \<Rightarrow> string" where
  "skip_ws s = dropWhile is_ws s"

definition is_digit :: "char \<Rightarrow> bool" where
  "is_digit c = ((48::nat) \<le> of_char c \<and> (of_char c :: nat) \<le> 57)"

definition digits_value :: "string \<Rightarrow> nat" where
  "digits_value ds = foldl (\<lambda>acc c. 10 * acc + (of_char c - 48)) 0 ds"

definition hex_value :: "char \<Rightarrow> nat option" where
  "hex_value c =
     (let n = (of_char c :: nat)
      in if 48 \<le> n \<and> n \<le> 57 then Some (n - 48)
         else if 65 \<le> n \<and> n \<le> 70 then Some (n - 55)
         else if 97 \<le> n \<and> n \<le> 102 then Some (n - 87)
         else None)"

definition hex4 :: "char \<Rightarrow> char \<Rightarrow> char \<Rightarrow> char \<Rightarrow> nat option" where
  "hex4 a b c d =
     (case (hex_value a, hex_value b, hex_value c, hex_value d) of
        (Some x, Some y, Some z, Some w) \<Rightarrow> Some (((x * 16 + y) * 16 + z) * 16 + w)
      | other \<Rightarrow> None)"

text \<open>
  The UTF-8 bytes of a code point. An escape \<open>\uXXXX\<close> names a UTF-16 code unit: a high
  surrogate followed by a low one is the one code point of the pair, and a surrogate
  half on its own, which UTF-8 has no bytes for, is written with the three bytes of
  its own number.
\<close>

definition utf8 :: "nat \<Rightarrow> string" where
  "utf8 n =
     (if n < 128 then [char_of n]
      else if n < 2048 then [char_of (192 + n div 64), char_of (128 + n mod 64)]
      else if n < 65536 then
        [char_of (224 + n div 4096), char_of (128 + (n div 64) mod 64), char_of (128 + n mod 64)]
      else
        [char_of (240 + n div 262144), char_of (128 + (n div 4096) mod 64),
         char_of (128 + (n div 64) mod 64), char_of (128 + n mod 64)])"

datatype piece = Byte char | Escaped nat

definition high_surrogate :: "nat \<Rightarrow> bool" where
  "high_surrogate n = (55296 \<le> n \<and> n \<le> 56319)"

definition low_surrogate :: "nat \<Rightarrow> bool" where
  "low_surrogate n = (56320 \<le> n \<and> n \<le> 57343)"

fun pieces_text :: "piece list \<Rightarrow> string" where
  "pieces_text [] = []"
| "pieces_text (Byte c # ps) = c # pieces_text ps"
| "pieces_text (Escaped h # Escaped l # ps) =
     (if high_surrogate h \<and> low_surrogate l
      then utf8 (65536 + (h - 55296) * 1024 + (l - 56320)) @ pieces_text ps
      else utf8 h @ pieces_text (Escaped l # ps))"
| "pieces_text (Escaped h # ps) = utf8 h @ pieces_text ps"

definition escape :: "char \<Rightarrow> char option" where
  "escape e =
     (if e = CHR 0x22 then Some (CHR 0x22)
      else if e = CHR 0x5C then Some (CHR 0x5C)
      else if e = CHR ''/'' then Some (CHR ''/'')
      else if e = CHR ''b'' then Some (CHR 0x08)
      else if e = CHR ''f'' then Some (CHR 0x0C)
      else if e = CHR ''n'' then Some (CHR 0x0A)
      else if e = CHR ''r'' then Some (CHR 0x0D)
      else if e = CHR ''t'' then Some (CHR 0x09)
      else None)"

text \<open>
  The characters of a string literal after its opening quote, up to the closing one, each
  a byte of the text or the code unit of an escape by number.
\<close>

fun parse_chars :: "string \<Rightarrow> (piece list \<times> string) option" where
  "parse_chars [] = None"
| "parse_chars (c # cs) =
     (if c = CHR 0x22 then Some ([], cs)
      else if c = CHR 0x5C then
        (case cs of
           [] \<Rightarrow> None
         | e # cs' \<Rightarrow>
             (if e = CHR ''u'' then
                (case cs' of
                   h1 # h2 # h3 # h4 # rest \<Rightarrow>
                     (case hex4 h1 h2 h3 h4 of
                        None \<Rightarrow> None
                      | Some n \<Rightarrow>
                          (case parse_chars rest of
                             None \<Rightarrow> None
                           | Some (s, r) \<Rightarrow> Some (Escaped n # s, r)))
                 | other \<Rightarrow> None)
              else
                (case escape e of
                   None \<Rightarrow> None
                 | Some x \<Rightarrow>
                     (case parse_chars cs' of
                        None \<Rightarrow> None
                      | Some (s, r) \<Rightarrow> Some (Byte x # s, r)))))
      else if (of_char c :: nat) < 32 then None
      else
        (case parse_chars cs of
           None \<Rightarrow> None
         | Some (s, r) \<Rightarrow> Some (Byte c # s, r)))"

text \<open>
  The double the decimal \<open>m * 10 ^ e\<close> with \<open>0 \<le> m\<close> is read as, rounding to nearest, ties
  to even: zero up to half the least positive double, \<open>2 ^ - 1075\<close>, and infinite from
  the midpoint between the greatest double and \<open>2 ^ 1024\<close>, which is \<open>2 ^ 1024 - 2 ^ 970\<close>.
\<close>

definition rounds_to_zero :: "int \<Rightarrow> int \<Rightarrow> bool" where
  "rounds_to_zero m e = (if 0 \<le> e then m = 0 else m * 2 ^ 1075 \<le> 10 ^ nat (- e))"

definition overflows :: "int \<Rightarrow> int \<Rightarrow> bool" where
  "overflows m e =
     (if 0 \<le> e then 2 ^ 1024 - 2 ^ 970 \<le> m * 10 ^ nat e
      else (2 ^ 1024 - 2 ^ 970) * 10 ^ nat (- e) \<le> m)"

definition to_number :: "bool \<Rightarrow> int \<Rightarrow> int \<Rightarrow> number" where
  "to_number negative m e =
     (if rounds_to_zero m e then Zero
      else if overflows m e then Infinite negative
      else Finite (if negative then - m else m) e)"

text \<open>
  A number: an optional minus, an integer part without a leading zero, an optional
  fraction, an optional exponent.
\<close>

definition parse_exponent :: "string \<Rightarrow> (int \<times> string) option" where
  "parse_exponent s =
     (case s of
        [] \<Rightarrow> Some (0, s)
      | c # cs \<Rightarrow>
          (if c = CHR ''e'' \<or> c = CHR ''E'' then
             (let negative = (cs \<noteq> [] \<and> hd cs = CHR ''-'');
                  signed = (cs \<noteq> [] \<and> (hd cs = CHR ''-'' \<or> hd cs = CHR ''+''));
                  body = (if signed then tl cs else cs);
                  ds = takeWhile is_digit body
              in if ds = [] then None
                 else Some ((if negative then - int (digits_value ds) else int (digits_value ds)),
                            dropWhile is_digit body))
           else Some (0, s)))"

definition parse_fraction :: "string \<Rightarrow> (string \<times> string) option" where
  "parse_fraction s =
     (case s of
        [] \<Rightarrow> Some ([], s)
      | c # cs \<Rightarrow>
          (if c = CHR ''.'' then
             (let fs = takeWhile is_digit cs
              in if fs = [] then None else Some (fs, dropWhile is_digit cs))
           else Some ([], s)))"

definition parse_number :: "string \<Rightarrow> (json \<times> string) option" where
  "parse_number s =
     (let negative = (s \<noteq> [] \<and> hd s = CHR ''-'');
          body = (if negative then tl s else s);
          ds = takeWhile is_digit body
      in if ds = [] \<or> (length ds > 1 \<and> hd ds = CHR ''0'') then None
         else
           (case parse_fraction (dropWhile is_digit body) of
              None \<Rightarrow> None
            | Some (fs, r1) \<Rightarrow>
                (case parse_exponent r1 of
                   None \<Rightarrow> None
                 | Some (ex, r2) \<Rightarrow>
                     (let magnitude = int (digits_value (ds @ fs))
                      in Some (JNumber (to_number negative magnitude (ex - int (length fs))),
                               r2)))))"

definition startsWith :: "string \<Rightarrow> string \<Rightarrow> bool" where
  "startsWith s p = (take (length p) s = p)"

definition expect :: "char \<Rightarrow> string \<Rightarrow> string option" where
  "expect c s = (case skip_ws s of [] \<Rightarrow> None | x # r \<Rightarrow> (if x = c then Some r else None))"

text \<open>
  Values, the elements of a non-empty array after its bracket and the members of a
  non-empty object after its brace. The first argument bounds the depth of the calls;
  \<open>JSON_parse\<close> starts from a bound no text of that length can reach.
\<close>

fun parse_value :: "nat \<Rightarrow> string \<Rightarrow> (json \<times> string) option"
  and parse_elements :: "nat \<Rightarrow> string \<Rightarrow> (json list \<times> string) option"
  and parse_members :: "nat \<Rightarrow> string \<Rightarrow> ((string \<times> json) list \<times> string) option"
where
  "parse_value 0 s = None"
| "parse_value (Suc n) s =
     (case skip_ws s of
        [] \<Rightarrow> None
      | c # cs \<Rightarrow>
          (if c = CHR ''{'' then
             (case expect (CHR ''}'') cs of
                Some r \<Rightarrow> Some (JObject [], r)
              | None \<Rightarrow>
                  (case parse_members n cs of
                     None \<Rightarrow> None
                   | Some (kvs, r) \<Rightarrow> Some (JObject kvs, r)))
           else if c = CHR ''['' then
             (case expect (CHR '']'') cs of
                Some r \<Rightarrow> Some (JArray [], r)
              | None \<Rightarrow>
                  (case parse_elements n cs of
                     None \<Rightarrow> None
                   | Some (vs, r) \<Rightarrow> Some (JArray vs, r)))
           else if c = CHR 0x22 then
             (case parse_chars cs of
                None \<Rightarrow> None
              | Some (str, r) \<Rightarrow> Some (JString (pieces_text str), r))
           else if startsWith (c # cs) ''true'' then Some (JBool True, drop 4 (c # cs))
           else if startsWith (c # cs) ''false'' then Some (JBool False, drop 5 (c # cs))
           else if startsWith (c # cs) ''null'' then Some (JNull, drop 4 (c # cs))
           else parse_number (c # cs)))"
| "parse_elements 0 s = None"
| "parse_elements (Suc n) s =
     (case parse_value n s of
        None \<Rightarrow> None
      | Some (v, r) \<Rightarrow>
          (case skip_ws r of
             [] \<Rightarrow> None
           | c # cs \<Rightarrow>
               (if c = CHR '','' then
                  (case parse_elements n cs of
                     None \<Rightarrow> None
                   | Some (vs, r') \<Rightarrow> Some (v # vs, r'))
                else if c = CHR '']'' then Some ([v], cs)
                else None)))"
| "parse_members 0 s = None"
| "parse_members (Suc n) s =
     (case expect (CHR 0x22) s of
        None \<Rightarrow> None
      | Some cs \<Rightarrow>
          (case parse_chars cs of
             None \<Rightarrow> None
           | Some (k, r) \<Rightarrow>
               (case expect (CHR '':'') r of
                  None \<Rightarrow> None
                | Some r1 \<Rightarrow>
                    (case parse_value n r1 of
                       None \<Rightarrow> None
                     | Some (v, r2) \<Rightarrow>
                         (case skip_ws r2 of
                            [] \<Rightarrow> None
                          | c # r3 \<Rightarrow>
                              (if c = CHR '','' then
                                 (case parse_members n r3 of
                                    None \<Rightarrow> None
                                  | Some (kvs, r') \<Rightarrow> Some ((pieces_text k, v) # kvs, r'))
                               else if c = CHR ''}'' then Some ([(pieces_text k, v)], r3)
                               else None))))))"

definition JSON_parse :: "string \<Rightarrow> json option" where
  "JSON_parse s =
     (case parse_value (2 * length s + 2) s of
        None \<Rightarrow> None
      | Some (v, r) \<Rightarrow> (if skip_ws r = [] then Some v else None))"

section \<open>The streaming loop of \<open>/api/chat\<close>\<close>

text \<open>
  The loop reads the upstream body chunk by chunk. \<open>decoder.decode(value, { stream: true })\<close>
  turns the bytes of one read into text; the model starts from that text, one \<open>string\<close> for
  each read. A read either delivers a chunk or rejects; the end of the list is \<open>done\<close>.
\<close>

datatype read_result = Chunk string | ReadError

text \<open>
  What the loop writes to the caller: \<open>ContentEvent c\<close> is
  \<open>res.write(`data: ${JSON.stringify({ content: c })}\n\n`)\<close> and \<open>DoneEvent\<close> is
  \<open>res.write(`data: [DONE]\n\n`)\<close>.
\<close>

datatype sse_event = ContentEvent json | DoneEvent

text \<open>\<open>chunk.split("\n")\<close>: the pieces between line feeds, a single empty piece for the empty text.\<close>

fun split_nl :: "string \<Rightarrow> string list" where
  "split_nl [] = [[]]"
| "split_nl (c # cs) =
     (if c = CHR 0x0A then [] # split_nl cs
      else (case split_nl cs of [] \<Rightarrow> [[c]] | l # ls \<Rightarrow> (c # l) # ls))"

text \<open>
  \<open>parsed.choices?.[0]?.delta?.content\<close>. The first read has no \<open>?.\<close>: on \<open>null\<close> it throws
  a \<open>TypeError\<close>, the outer \<open>None\<close>; the inner \<open>None\<close> is \<open>undefined\<close>.
\<close>

definition delta_content :: "json \<Rightarrow> json option option" where
  "delta_content parsed =
     (if parsed = JNull then None
      else Some (optional_chain
                  (optional_chain (optional_chain (get_prop ''choices'' parsed) item0)
                     (get_prop ''delta''))
                  (get_prop ''content'')))"

text \<open>
  The body of \<open>for (const line of lines)\<close>. Both a \<open>SyntaxError\<close> of the parser and the
  \<open>TypeError\<close> are caught by the inner \<open>try\<close>, logged, and the loop goes on.
\<close>

definition processLine :: "(string \<Rightarrow> json option) \<Rightarrow> string \<Rightarrow> sse_event list" where
  "processLine parse line =
     (if startsWith line ''data: '' then
        (let data = drop 6 line
         in if data = ''[DONE]'' then [DoneEvent]
            else
              (case parse data of
                 None \<Rightarrow> []
               | Some parsed \<Rightarrow>
                   (case delta_content parsed of
                      None \<Rightarrow> []
                    | Some None \<Rightarrow> []
                    | Some (Some content) \<Rightarrow>
                        (if truthy content then [ContentEvent content] else []))))
      else [])"

definition processLines :: "(string \<Rightarrow> json option) \<Rightarrow> string list \<Rightarrow> sse_event list" where
  "processLines parse lines = concat (map (processLine parse) lines)"

definition processChunk :: "(string \<Rightarrow> json option) \<Rightarrow> string \<Rightarrow> sse_event list" where
  "processChunk parse chunk = processLines parse (split_nl chunk)"

text \<open>
  \<open>while (true)\<close>: a rejected read is caught by the \<open>try\<close> around the loop and ends the
  response as \<open>done\<close> does; nothing is written for it.
\<close>

fun relay :: "(string \<Rightarrow> json option) \<Rightarrow> read_result list \<Rightarrow> sse_event list" where
  "relay parse [] = []"
| "relay parse (ReadError # rest) = []"
| "relay parse (Chunk chunk # rest) = processChunk parse chunk @ relay parse rest"

text \<open>The bytes of one write and of the whole body, for a given \<open>JSON.stringify\<close>.\<close>

definition frame :: "(json \<Rightarrow> string) \<Rightarrow> sse_event \<Rightarrow> string" where
  "frame stringify e =
     (case e of
        ContentEvent content \<Rightarrow>
          ''data: '' @ stringify (JObject [(''content'', content)]) @ [CHR 0x0A, CHR 0x0A]
      | DoneEvent \<Rightarrow> ''data: [DONE]'' @ [CHR 0x0A, CHR 0x0A])"

definition body_bytes :: "(json \<Rightarrow> string) \<Rightarrow> sse_event list \<Rightarrow> string" where
  "body_bytes stringify events = concat (map (frame stringify) events)"

text \<open>\<open>ends_lines chunks\<close>: every read but the last ends with a line feed, so no line spans two reads.\<close>

definition ends_lines :: "string list \<Rightarrow> bool" where
  "ends_lines chunks = list_all (\<lambda>c. c \<noteq> [] \<and> last c = CHR 0x0A) (butlast chunks)"

text \<open>\<open>string_content e\<close>: the event carries a string that is not empty.\<close>

fun string_content :: "sse_event \<Rightarrow> bool" where
  "string_content (ContentEvent (JString s)) = (s \<noteq> [])"
| "string_content e = False"

fun is_content :: "sse_event \<Rightarrow> bool" where
  "is_content (ContentEvent c) = True"
| "is_content DoneEvent = False"

fun truthy_content :: "sse_event \<Rightarrow> bool" where
  "truthy_content (ContentEvent c) = truthy c"
| "truthy_content DoneEvent = True"

text \<open>
  An upstream data line as the provider sends it for the increment \<open>text\<close> (plain text that
  needs no escape), used by the examples.
\<close>

definition token_line :: "string \<Rightarrow> string" where
  "token_line text = ''data: {\"choices\":[{\"delta\":{\"content\":\"'' @ text @ ''\"}}]}''"

section \<open>The request schema and the handler of \<open>/api/chat\<close>\<close>

text \<open>
  \<open>chatRequestSchema\<close>: an object with a \<open>message\<close> that is a string of length at least 1,
  an optional \<open>conversationHistory\<close> that is an array of objects with a \<open>role\<close> out of
  \<open>user\<close> and \<open>assistant\<close> and a string \<open>content\<close>, and an optional string
  \<open>conversationId\<close>. \<open>chatRequestSchema.parse\<close> returns the validated data or throws a
  \<open>ZodError\<close>, here \<open>None\<close>. The request body is \<open>undefined\<close> (\<open>None\<close>) or a JSON value.
\<close>

datatype role = User | Assistant

record ChatRequest =
  message :: string
  conversationHistory :: "(role \<times> string) list option"
  conversationId :: "string option"

definition history_entry :: "json \<Rightarrow> (role \<times> string) option" where
  "history_entry v =
     (case v of
        JObject kvs \<Rightarrow>
          (case (get_prop ''role'' v, get_prop ''content'' v) of
             (Some (JString r), Some (JString c)) \<Rightarrow>
               (if r = ''user'' then Some (User, c)
                else if r = ''assistant'' then Some (Assistant, c)
                else None)
           | other \<Rightarrow> None)
      | other \<Rightarrow> None)"

definition history_field :: "json option \<Rightarrow> (role \<times> string) list option option" where
  "history_field v =
     (case v of
        None \<Rightarrow> Some None
      | Some (JArray xs) \<Rightarrow> map_option Some (those (map history_entry xs))
      | Some other \<Rightarrow> None)"

definition id_field :: "json option \<Rightarrow> string option option" where
  "id_field v =
     (case v of
        None \<Rightarrow> Some None
      | Some (JString s) \<Rightarrow> Some (Some s)
      | Some other \<Rightarrow> None)"

definition chatRequestSchema_parse :: "json option \<Rightarrow> ChatRequest option" where
  "chatRequestSchema_parse body =
     (case body of
        Some (JObject kvs) \<Rightarrow>
          (case get_prop ''message'' (JObject kvs) of
             Some (JString msg) \<Rightarrow>
               (if length msg < 1 then None
                else
                  (case history_field (get_prop ''conversationHistory'' (JObject kvs)) of
                     None \<Rightarrow> None
                   | Some h \<Rightarrow>
                       (case id_field (get_prop ''conversationId'' (JObject kvs)) of
                          None \<Rightarrow> None
                        | Some i \<Rightarrow>
                            Some \<lparr>message = msg, conversationHistory = h, conversationId = i\<rparr>)))
           | other \<Rightarrow> None)
      | other \<Rightarrow> None)"

text \<open>
  What \<open>fetch\<close> gives back: it rejects, or it resolves to a response with a status, the
  outcome of \<open>response.text()\<close> (\<open>None\<close> when it rejects) and the body (\<open>None\<close> when
  \<open>response.body\<close> is \<open>null\<close>), the latter as the list of its reads.
\<close>

datatype fetch_result =
    FetchThrows
  | Response nat "string option" "read_result list option"

datatype thrown = ZodError | FetchError | TextError

text \<open>
  A response to the caller: \<open>res.status(s).json(b)\<close>, where the body is an object written
  in the source or \<open>{ error: error.message }\<close> of the outer \<open>catch\<close>, or an event stream.
\<close>

datatype body = Literal json | ErrorMessage thrown

datatype http_response = Json nat body | EventStream "sse_event list"

definition busy :: body where
  "busy = Literal (JObject [(''error'', JString ''Server is busy. Please try again later.''),
                            (''rateLimited'', JBool True)])"

definition not_configured :: body where
  "not_configured = Literal (JObject [(''error'', JString ''OpenRouter API key not configured'')])"

definition upstream_failed :: body where
  "upstream_failed = Literal (JObject [(''error'', JString ''Failed to get response from AI service'')])"

definition read_failed :: body where
  "read_failed = Literal (JObject [(''error'', JString ''Failed to read AI response'')])"

text \<open>\<open>response.ok\<close>: a status from 200 to 299.\<close>

definition ok :: "nat \<Rightarrow> bool" where
  "ok status = (200 \<le> status \<and> status \<le> 299)"

text \<open>
  One request: the response, the credentials of the upstream calls made, in order, and the
  key manager as the request leaves it.
\<close>

record outcome =
  response :: http_response
  upstream_calls :: "string list"
  manager :: APIKeyManager

text \<open>
  The handler. \<open>fetch apiKey validatedData\<close> is the upstream call made with the bearer
  credential \<open>apiKey\<close>; the system prompt, the model name and the \<open>stream\<close> flag of its body
  are constants of the source and are left to \<open>fetch\<close>. \<open>t1\<close>, \<open>t2\<close> and \<open>t3\<close> are the
  readings of \<open>Date.now()\<close> in the first \<open>getNextAvailableKey\<close>, in
  \<open>allKeysRateLimited\<close> or \<open>markKeyAsRateLimited\<close>, and in the second
  \<open>getNextAvailableKey\<close>. A rate limit is recorded with the default duration of 60000.
\<close>

text \<open>The branch \<open>if (!apiKey)\<close>, taken on \<open>null\<close> and on the empty string.\<close>

definition no_key :: "APIKeyManager \<Rightarrow> nat \<Rightarrow> outcome" where
  "no_key m1 t2 =
     (if allKeysRateLimited m1 t2
      then \<lparr>response = Json 503 busy, upstream_calls = [], manager = m1\<rparr>
      else \<lparr>response = Json 500 not_configured, upstream_calls = [], manager = m1\<rparr>)"

text \<open>The branch \<open>if (response.status === 429)\<close> and the response after it.\<close>

definition rate_limited :: "nat \<Rightarrow> nat \<Rightarrow> APIKeyManager \<Rightarrow> string \<Rightarrow> outcome" where
  "rate_limited t2 t3 m1 apiKey =
     (case getNextAvailableKey (markKeyAsRateLimited m1 apiKey 60000 t2) t3 of
        (nextKey, m3) \<Rightarrow>
          (if nextKey = None \<or> nextKey = Some []
           then \<lparr>response = Json 503 busy, upstream_calls = [apiKey], manager = m3\<rparr>
           else \<lparr>response = Json 429 upstream_failed, upstream_calls = [apiKey], manager = m3\<rparr>))"

text \<open>The handler from \<open>fetch\<close> on, with the credential \<open>apiKey\<close> in hand.\<close>

definition with_key ::
  "(string \<Rightarrow> ChatRequest \<Rightarrow> fetch_result) \<Rightarrow> (string \<Rightarrow> json option) \<Rightarrow>
   nat \<Rightarrow> nat \<Rightarrow> APIKeyManager \<Rightarrow> string \<Rightarrow> ChatRequest \<Rightarrow> outcome" where
  "with_key fetch parse t2 t3 m1 apiKey validatedData =
     (case fetch apiKey validatedData of
        FetchThrows \<Rightarrow>
          \<lparr>response = Json 400 (ErrorMessage FetchError), upstream_calls = [apiKey], manager = m1\<rparr>
      | Response status text stream \<Rightarrow>
          (if \<not> ok status then
             (case text of
                None \<Rightarrow>
                  \<lparr>response = Json 400 (ErrorMessage TextError), upstream_calls = [apiKey],
                   manager = m1\<rparr>
              | Some error \<Rightarrow>
                  (if status = 429 then rate_limited t2 t3 m1 apiKey
                   else \<lparr>response = Json status upstream_failed, upstream_calls = [apiKey],
                         manager = m1\<rparr>))
           else
             (case stream of
                None \<Rightarrow>
                  \<lparr>response = Json 500 read_failed, upstream_calls = [apiKey], manager = m1\<rparr>
              | Some reads \<Rightarrow>
                  \<lparr>response = EventStream (relay parse reads), upstream_calls = [apiKey],
                   manager = m1\<rparr>)))"

definition api_chat ::
  "(string \<Rightarrow> ChatRequest \<Rightarrow> fetch_result) \<Rightarrow> (string \<Rightarrow> json option) \<Rightarrow>
   nat \<Rightarrow> nat \<Rightarrow> nat \<Rightarrow> APIKeyManager \<Rightarrow> json option \<Rightarrow> outcome" where
  "api_chat fetch parse t1 t2 t3 m req_body =
     (case chatRequestSchema_parse req_body of
        None \<Rightarrow> \<lparr>response = Json 400 (ErrorMessage ZodError), upstream_calls = [], manager = m\<rparr>
      | Some validatedData \<Rightarrow>
          (case getNextAvailableKey m t1 of
             (None, m1) \<Rightarrow> no_key m1 t2
           | (Some apiKey, m1) \<Rightarrow>
               (if apiKey = [] then no_key m1 t2
                else with_key fetch parse t2 t3 m1 apiKey validatedData)))"
section \<open>Properties of the key manager\<close>

lemma scanKeys_find:
  "scanKeys m now i =
     chosen m (find (usable m now)
        (map (\<lambda>i. (currentKeyIndex m + i) mod length (keys m)) [i..<length (keys m)]))"
proof (induction m now i rule: scanKeys.induct)
  case (1 m now i)
  show ?case
  proof (cases "i < length (keys m)")
    case False
    then show ?thesis by (simp add: scanKeys.simps [of m now i] chosen_def)
  next
    case True
    then have split: "[i..<length (keys m)] = i # [i + 1..<length (keys m)]"
      by (simp add: upt_conv_Cons)
    show ?thesis
    proof (cases "int now \<ge> or0 (keyRateLimitedUntil m ((currentKeyIndex m + i) mod length (keys m)))")
      case True
      with \<open>i < length (keys m)\<close> show ?thesis
        by (simp add: scanKeys.simps [of m now i] split usable_def chosen_def Let_def)
    next
      case False
      with \<open>i < length (keys m)\<close> "1.IH" [OF _ refl refl] show ?thesis
        by (simp add: scanKeys.simps [of m now i] split usable_def Let_def)
    qed
  qed
qed

lemma getNextAvailableKey_find:
  "getNextAvailableKey m now = chosen m (find (usable m now) (scan_order m))"
  by (simp add: getNextAvailableKey_def scanKeys_find scan_order_def chosen_def)

lemma usable_empty: "keyRateLimitedUntil m = Map.empty \<Longrightarrow> usable m now i"
  by (simp add: usable_def or0_def)

lemma getNext_unpenalized:
  assumes "keys m \<noteq> []" and "keyRateLimitedUntil m = Map.empty"
  shows "getNextAvailableKey m now =
     (Some (keys m ! (currentKeyIndex m mod length (keys m))),
      m\<lparr>currentKeyIndex := Suc (currentKeyIndex m) mod length (keys m)\<rparr>)"
proof -
  from assms(1) have "[0..<length (keys m)] = 0 # [1..<length (keys m)]"
    by (simp add: upt_conv_Cons)
  then have "scan_order m = (currentKeyIndex m mod length (keys m)) #
      map (\<lambda>i. (currentKeyIndex m + i) mod length (keys m)) [1..<length (keys m)]"
    by (simp add: scan_order_def)
  then show ?thesis
    using assms(2) by (simp add: getNextAvailableKey_find usable_empty chosen_def mod_Suc_eq)
qed

lemma run_getNext_unpenalized:
  assumes "keys m \<noteq> []" and "keyRateLimitedUntil m = Map.empty"
  shows "fst (run m (map GetNext ts)) =
     map (\<lambda>i. Key (Some (keys m ! ((currentKeyIndex m + i) mod length (keys m))))) [0..<length ts]"
  using assms
proof (induction ts arbitrary: m)
  case Nil
  then show ?case by simp
next
  case (Cons t ts)
  let ?N = "length (keys m)"
  let ?m' = "m\<lparr>currentKeyIndex := Suc (currentKeyIndex m) mod ?N\<rparr>"
  have IH: "fst (run ?m' (map GetNext ts)) =
     map (\<lambda>i. Key (Some (keys ?m' ! ((currentKeyIndex ?m' + i) mod length (keys ?m'))))) [0..<length ts]"
    using Cons.prems by (intro Cons.IH) simp_all
  have idx: "(Suc (currentKeyIndex m) mod ?N + i) mod ?N = (currentKeyIndex m + Suc i) mod ?N" for i
    by (simp add: mod_add_left_eq)
  have shift: "[0..<Suc (length ts)] = 0 # map Suc [0..<length ts]"
    by (simp add: upt_conv_Cons map_Suc_upt del: upt_Suc)
  have "fst (run m (map GetNext (t # ts))) =
      Key (Some (keys m ! (currentKeyIndex m mod ?N))) # fst (run ?m' (map GetNext ts))"
    using Cons.prems by (simp add: getNext_unpenalized split: prod.splits)
  also have "\<dots> = map (\<lambda>i. Key (Some (keys m ! ((currentKeyIndex m + i) mod ?N)))) [0..<length (t # ts)]"
    unfolding IH by (simp add: shift idx comp_def del: upt_Suc)
  finally show ?case .
qed

lemma rotate_nth_map:
  "xs \<noteq> [] \<Longrightarrow> map (\<lambda>i. f (xs ! ((c + i) mod length xs))) [0..<length xs] = map f (rotate c xs)"
  by (rule nth_equalityI) (simp_all add: nth_rotate add.commute)

lemma mset_rotate1_eq: "mset (rotate1 xs) = mset xs"
  by (cases xs) simp_all

lemma mset_rotate_eq: "mset (rotate n xs) = mset xs"
  by (induction n) (simp_all add: mset_rotate1_eq)

lemma indexOf_Some: "indexOf xs k = Some j \<Longrightarrow> j < length xs \<and> xs ! j = k"
  by (induction xs arbitrary: j) (auto split: if_splits)

lemma indexOf_None: "indexOf xs k = None \<longleftrightarrow> k \<notin> set xs"
  by (induction xs) auto

lemma indexOf_unique:
  "count_list xs k \<le> 1 \<Longrightarrow> indexOf xs k = Some i \<Longrightarrow> j < length xs \<Longrightarrow> xs ! j = k \<Longrightarrow> j = i"
proof (induction xs arbitrary: i j)
  case Nil
  then show ?case by simp
next
  case (Cons x xs)
  show ?case
  proof (cases "x = k")
    case True
    with Cons.prems(1) have "count_list xs k = 0" by simp
    then have notin: "k \<notin> set xs" by (simp add: count_list_0_iff)
    from True Cons.prems(2) have "i = 0" by simp
    moreover have "j = 0"
    proof (rule ccontr)
      assume "j \<noteq> 0"
      then obtain j' where "j = Suc j'" by (cases j) auto
      with Cons.prems(3,4) have "xs ! j' = k" "j' < length xs" by simp_all
      with notin show False by (metis nth_mem)
    qed
    ultimately show ?thesis by simp
  next
    case False
    with Cons.prems(2) obtain i' where i': "i = Suc i'" "indexOf xs k = Some i'" by auto
    from False Cons.prems(4) obtain j' where j': "j = Suc j'" by (cases j) auto
    from False Cons.prems(1) have "count_list xs k \<le> 1" by simp
    from Cons.IH [OF this i'(2)] j' Cons.prems(3,4) have "j' = i'" by simp
    with i' j' show ?thesis by simp
  qed
qed

lemma find_SomeD: "find P xs = Some x \<Longrightarrow> P x \<and> x \<in> set xs"
  by (induction xs) (auto split: if_splits)

lemma keys_getNext [simp]: "keys (snd (getNextAvailableKey m now)) = keys m"
  by (simp add: getNextAvailableKey_find chosen_def split: option.splits)

lemma table_getNext [simp]:
  "keyRateLimitedUntil (snd (getNextAvailableKey m now)) = keyRateLimitedUntil m"
  by (simp add: getNextAvailableKey_find chosen_def split: option.splits)

lemma keys_mark [simp]: "keys (markKeyAsRateLimited m key d now) = keys m"
  by (simp add: markKeyAsRateLimited_def split: option.splits)

lemma cursor_mark [simp]: "currentKeyIndex (markKeyAsRateLimited m key d now) = currentKeyIndex m"
  by (simp add: markKeyAsRateLimited_def split: option.splits)

lemma keys_step [simp]: "keys (snd (step m c)) = keys m"
  by (cases c) (simp_all split: prod.splits, metis keys_getNext snd_conv)

lemma run_Cons:
  "run m (c # cs) =
     (fst (step m c) # fst (run (snd (step m c)) cs), snd (run (snd (step m c)) cs))"
  by (simp split: prod.splits)

lemma length_run [simp]: "length (fst (run m cs)) = length cs"
  by (induction cs arbitrary: m) (simp_all add: run_Cons del: run.simps(2))

lemma penalized_after_mark: "penalized_until (markKeyAsRateLimited m k d t) k (int t + d)"
  by (simp add: penalized_until_def markKeyAsRateLimited_def split: option.splits)

lemma penalized_step:
  "penalized_until m k e \<Longrightarrow> keeps_penalty k e c \<Longrightarrow> penalized_until (snd (step m c)) k e"
proof (cases c)
  case (GetNext now)
  assume "penalized_until m k e"
  moreover have "snd (step m c) = snd (getNextAvailableKey m now)"
    using GetNext by (simp split: prod.splits)
  ultimately show ?thesis by (auto simp: penalized_until_def split: option.splits)
next
  case (Penalize k' d' t')
  assume "penalized_until m k e" "keeps_penalty k e c"
  with Penalize show ?thesis
    by (auto simp: penalized_until_def markKeyAsRateLimited_def split: option.splits
        dest: indexOf_Some)
next
  case (AllLimited now)
  assume "penalized_until m k e"
  with AllLimited show ?thesis by simp
qed

lemma penalized_not_returned:
  assumes "count_list (keys m) k \<le> 1" and "penalized_until m k e" and "int now < e"
  shows "fst (getNextAvailableKey m now) \<noteq> Some k"
proof
  assume "fst (getNextAvailableKey m now) = Some k"
  then obtain j where f: "find (usable m now) (scan_order m) = Some j" and kj: "keys m ! j = k"
    by (auto simp: getNextAvailableKey_find chosen_def split: option.splits)
  from find_SomeD [OF f] have u: "usable m now j" and "j \<in> set (scan_order m)" by simp_all
  then have jl: "j < length (keys m)"
    by (auto simp: scan_order_def intro!: mod_less_divisor)
  then have "k \<in> set (keys m)" using kj by (metis nth_mem)
  then obtain i where i: "indexOf (keys m) k = Some i"
    using indexOf_None [of "keys m" k] by (cases "indexOf (keys m) k") auto
  from indexOf_unique [OF assms(1) i jl kj] have "j = i" .
  with assms(2) i obtain v where "keyRateLimitedUntil m j = Some v" "e \<le> v"
    by (auto simp: penalized_until_def split: option.splits)
  with u assms(3) show False by (auto simp: usable_def or0_def split: if_splits)
qed

lemma run_penalized:
  assumes "count_list (keys m) k \<le> 1" and "penalized_until m k e"
    and "list_all (keeps_penalty k e) cs"
    and "i < length cs" and "cs ! i = GetNext now" and "int now < e"
  shows "fst (run m cs) ! i \<noteq> Key (Some k)"
  using assms
proof (induction cs arbitrary: m i)
  case Nil
  then show ?case by simp
next
  case (Cons c cs)
  obtain a m' where st: "step m c = (a, m')" by (cases "step m c")
  obtain as m'' where rn: "run m' cs = (as, m'')" by (cases "run m' cs")
  show ?case
  proof (cases i)
    case 0
    with Cons.prems have c: "c = GetNext now" by simp
    from penalized_not_returned [OF Cons.prems(1,2,6)] c st
    have "a \<noteq> Key (Some k)" by (auto split: prod.splits)
    with 0 st rn show ?thesis by simp
  next
    case (Suc i')
    have "keys m' = keys m" using keys_step [of m c] st by simp
    with Cons.prems(1) have 1: "count_list (keys m') k \<le> 1" by simp
    have 2: "penalized_until m' k e"
      using penalized_step [of m k e c] Cons.prems(2,3) st by simp
    from Cons.prems Suc have 3: "list_all (keeps_penalty k e) cs" "i' < length cs"
      "cs ! i' = GetNext now" by simp_all
    from Cons.IH [OF 1 2 3 Cons.prems(6)] have "fst (run m' cs) ! i' \<noteq> Key (Some k)" .
    with Suc st rn show ?thesis by simp
  qed
qed

section \<open>Properties of the streaming loop\<close>

lemma split_nl_nonempty [simp]: "split_nl s \<noteq> []"
  by (induction s) (auto split: list.splits)

lemma split_nl_append:
  "split_nl (x @ CHR 0x0A # y) = split_nl x @ split_nl y"
proof (induction x)
  case Nil
  then show ?case by simp
next
  case (Cons c x)
  obtain l ls where "split_nl x = l # ls"
    using split_nl_nonempty [of x] by (cases "split_nl x") auto
  with Cons show ?case by simp
qed

lemma processLine_empty [simp]: "processLine parse [] = []"
  by (simp add: processLine_def startsWith_def)

lemma processLines_append [simp]:
  "processLines parse (xs @ ys) = processLines parse xs @ processLines parse ys"
  by (simp add: processLines_def)

lemma processLines_Cons:
  "processLines parse (l # ls) = processLine parse l @ processLines parse ls"
  by (simp add: processLines_def)

lemma processLines_Nil [simp]: "processLines parse [] = []"
  by (simp add: processLines_def)

lemma processChunk_line_end:
  assumes "c \<noteq> []" and "last c = CHR 0x0A"
  shows "processLines parse (split_nl (c @ rest)) =
         processChunk parse c @ processLines parse (split_nl rest)"
proof -
  from assms have c: "c = butlast c @ [CHR 0x0A]"
    by (metis append_butlast_last_id)
  have 1: "split_nl (c @ rest) = split_nl (butlast c) @ split_nl rest"
    using split_nl_append [of "butlast c" rest] c by (metis append.assoc append_Cons append_Nil)
  have 2: "split_nl c = split_nl (butlast c) @ [[]]"
    using split_nl_append [of "butlast c" "[]"] c by simp
  show ?thesis
    unfolding processChunk_def 1 2 by (simp add: processLines_Cons)
qed

lemma relay_whole_lines:
  "ends_lines cs \<Longrightarrow>
     relay parse (map Chunk cs) = processLines parse (split_nl (concat cs))"
proof (induction cs)
  case Nil
  then show ?case by (simp add: processLines_Cons)
next
  case (Cons c cs)
  show ?case
  proof (cases cs)
    case Nil
    then show ?thesis by (simp add: processChunk_def)
  next
    case (Cons c' cs')
    with Cons.prems have c: "c \<noteq> []" "last c = CHR 0x0A" and rest: "ends_lines cs"
      by (simp_all add: ends_lines_def)
    from Cons.IH [OF rest] processChunk_line_end [OF c, of parse "concat cs"]
    show ?thesis by simp
  qed
qed

lemma startsWith_data: "startsWith line ''data: '' \<longleftrightarrow> take 6 line = ''data: ''"
proof -
  have "length ''data: '' = 6" by simp
  then show ?thesis by (simp only: startsWith_def)
qed

lemma done_line:
  "startsWith line ''data: '' \<and> drop 6 line = ''[DONE]'' \<longleftrightarrow> line = ''data: [DONE]''"
proof
  assume a: "startsWith line ''data: '' \<and> drop 6 line = ''[DONE]''"
  then have "take 6 line = ''data: ''" by (simp only: startsWith_data)
  with a have "take 6 line @ drop 6 line = ''data: [DONE]''" by simp
  then show "line = ''data: [DONE]''" by simp
next
  assume "line = ''data: [DONE]''"
  then show "startsWith line ''data: '' \<and> drop 6 line = ''[DONE]''"
    by (simp add: startsWith_data)
qed

lemma processLine_done:
  "length (filter (\<lambda>e. e = DoneEvent) (processLine parse line)) =
     (if line = ''data: [DONE]'' then 1 else 0)"
  using done_line [of line]
  by (auto simp: processLine_def Let_def split: option.splits)

lemma processLines_done:
  "length (filter (\<lambda>e. e = DoneEvent) (processLines parse ls)) =
     length (filter (\<lambda>l. l = ''data: [DONE]'') ls)"
  by (induction ls) (simp_all add: processLines_Cons processLine_done)

lemma split_nl_single: "CHR 0x0A \<notin> set x \<Longrightarrow> split_nl x = [x]"
  by (induction x) auto

lemma processLine_unparsable:
  assumes "parse bad = None" and "bad \<noteq> ''[DONE]''"
  shows "processLine parse (''data: '' @ bad) = []"
  using assms by (simp add: processLine_def startsWith_data)

lemma processChunk_unparsable:
  assumes "parse bad = None" and "bad \<noteq> ''[DONE]''" and "CHR 0x0A \<notin> set bad"
  shows "processChunk parse (''data: '' @ bad @ [CHR 0x0A]) = []"
proof -
  from assms(3) have "CHR 0x0A \<notin> set (''data: '' @ bad)" by simp
  from split_nl_single [OF this] split_nl_append [of "''data: '' @ bad" "[]"]
  have "split_nl (''data: '' @ bad @ [CHR 0x0A]) = [''data: '' @ bad, []]" by simp
  then show ?thesis
    using processLine_unparsable [of parse bad] assms(1,2)
    by (simp add: processChunk_def processLines_Cons)
qed

lemma relay_drop_empty_chunk:
  "processChunk parse c = [] \<Longrightarrow> relay parse (before @ Chunk c # after) = relay parse (before @ after)"
proof (induction before)
  case Nil
  then show ?case by simp
next
  case (Cons r before)
  then show ?case by (cases r) simp_all
qed
lemma processLine_truthy: "list_all truthy_content (processLine parse line)"
  by (simp add: processLine_def Let_def split: option.splits)

lemma processLines_truthy: "list_all truthy_content (processLines parse ls)"
  by (induction ls) (simp_all add: processLines_Cons processLine_truthy)

lemma relay_truthy: "list_all truthy_content (relay parse reads)"
proof (induction reads)
  case Nil
  then show ?case by simp
next
  case (Cons r reads)
  then show ?case by (cases r) (simp_all add: processChunk_def processLines_truthy)
qed

text \<open>
  Numbers at the edge of the double range: a decimal that reads as zero is falsy and
  writes nothing, one that reads as infinite is truthy and is rendered as \<open>null\<close>.
\<close>

lemma falsy_contents_write_nothing:
  "relay JSON_parse
     [Chunk (''data: {\"choices\":[{\"delta\":{\"content\":1e-400}}]}'' @ [CHR 0x0A]),
      Chunk (''data: {\"choices\":[{\"delta\":{\"content\":-0.0}}]}'' @ [CHR 0x0A]),
      Chunk (''data: {\"choices\":[{\"delta\":{\"content\":false}}]}'' @ [CHR 0x0A])] = []"
  by code_simp

lemma infinite_content_renders_null:
  "relay JSON_parse [Chunk (''data: {\"choices\":[{\"delta\":{\"content\":1e400}}]}'' @ [CHR 0x0A])]
     = [ContentEvent (JNumber (Infinite False))]
   \<and> truthy (JNumber (Infinite False)) \<and> renders_null (JNumber (Infinite False))"
  by code_simp

section \<open>Properties of the handler\<close>

lemma schema_rejects:
  assumes "get_prop ''message'' b = None \<or> get_prop ''message'' b = Some (JString [])
     \<or> (\<exists>v. get_prop ''conversationHistory'' b = Some v \<and> (\<forall>xs. v \<noteq> JArray xs))"
  shows "chatRequestSchema_parse (Some b) = None"
proof (cases b)
  case (JObject kvs)
  show ?thesis
  proof (cases "get_prop ''message'' b")
    case None
    with JObject show ?thesis by (simp add: chatRequestSchema_parse_def)
  next
    case (Some msg)
    show ?thesis
    proof (cases "\<exists>s. msg = JString s \<and> s \<noteq> []")
      case False
      with Some JObject show ?thesis
        by (cases msg) (simp_all add: chatRequestSchema_parse_def)
    next
      case True
      then obtain s where s: "msg = JString s" "s \<noteq> []" by blast
      with assms Some obtain v where v: "get_prop ''conversationHistory'' b = Some v"
        "\<forall>xs. v \<noteq> JArray xs" by auto
      then have "history_field (Some v) = None"
        by (cases v) (simp_all add: history_field_def)
      with s Some JObject v show ?thesis
        by (simp add: chatRequestSchema_parse_def)
    qed
  qed
qed (simp_all add: chatRequestSchema_parse_def)

lemma at_most_one_upstream_call:
  "length (upstream_calls (api_chat fetch parse t1 t2 t3 m req_body)) \<le> 1"
  by (simp add: api_chat_def no_key_def with_key_def rate_limited_def
      split: option.splits prod.splits fetch_result.splits)

text \<open>
  The scan visits every pool index, so no key is handed out exactly when every key is
  rate limited at that instant. A request that finds no key while the clock stands still
  is therefore always answered 503; a single key that answers 429 exhausts the pool;
  a successful upstream answer is relayed as an event stream.
\<close>

lemma set_scan_order: "set (scan_order m) = {0..<length (keys m)}"
proof (cases "length (keys m) = 0")
  case True
  then show ?thesis by (simp add: scan_order_def)
next
  case False
  let ?N = "length (keys m)"
  let ?c = "currentKeyIndex m"
  from False have N: "0 < ?N" by simp
  have "(\<lambda>i. (?c + i) mod ?N) ` {0..<?N} = {0..<?N}"
  proof
    show "(\<lambda>i. (?c + i) mod ?N) ` {0..<?N} \<subseteq> {0..<?N}"
      using N by auto
    show "{0..<?N} \<subseteq> (\<lambda>i. (?c + i) mod ?N) ` {0..<?N}"
    proof
      fix j assume "j \<in> {0..<?N}"
      then have j: "j < ?N" by simp
      let ?i = "(j + (?N - ?c mod ?N)) mod ?N"
      have "(?c + ?i) mod ?N = (?c mod ?N + (j + (?N - ?c mod ?N))) mod ?N"
        by (simp add: mod_add_right_eq mod_add_left_eq)
      also have "?c mod ?N + (j + (?N - ?c mod ?N)) = j + ?N"
        using mod_less_divisor [OF N, of ?c] by simp
      also have "(j + ?N) mod ?N = j" using j by simp
      finally have "(?c + ?i) mod ?N = j" .
      moreover have "?i \<in> {0..<?N}" using N by simp
      ultimately show "j \<in> (\<lambda>i. (?c + i) mod ?N) ` {0..<?N}" by force
    qed
  qed
  then show ?thesis by (simp add: scan_order_def)
qed

lemma no_key_iff_all_limited:
  "fst (getNextAvailableKey m now) = None \<longleftrightarrow> allKeysRateLimited m now"
proof -
  have "fst (getNextAvailableKey m now) = None \<longleftrightarrow> find (usable m now) (scan_order m) = None"
    by (simp add: getNextAvailableKey_find chosen_def split: option.splits)
  also have "\<dots> \<longleftrightarrow> (\<forall>j \<in> set (scan_order m). \<not> usable m now j)"
    by (auto simp: find_None_iff)
  also have "\<dots> \<longleftrightarrow> allKeysRateLimited m now"
    by (auto simp: set_scan_order allKeysRateLimited_def usable_def list_all_iff)
  finally show ?thesis .
qed

lemma allKeysRateLimited_frame:
  "allKeysRateLimited (snd (getNextAvailableKey m t)) now = allKeysRateLimited m now"
  by (simp add: allKeysRateLimited_def)

lemma no_key_same_instant_busy:
  assumes "chatRequestSchema_parse req_body = Some v"
    and "fst (getNextAvailableKey m t) = None"
  shows "api_chat fetch parse t t t3 m req_body
         = \<lparr>response = Json 503 busy, upstream_calls = [], manager = m\<rparr>"
proof -
  obtain k m1 where g: "getNextAvailableKey m t = (k, m1)" by (cases "getNextAvailableKey m t")
  with assms(2) have k: "k = None" by simp
  from g k have m1: "m1 = m"
    by (auto simp: getNextAvailableKey_find chosen_def split: option.splits)
  from assms(2) have "allKeysRateLimited m t" by (simp add: no_key_iff_all_limited)
  with assms(1) g k m1 show ?thesis
    by (simp add: api_chat_def no_key_def)
qed

lemma single_key_exhausted:
  assumes "chatRequestSchema_parse req_body = Some v"
    and "keys m = [apiKey]" and "apiKey \<noteq> []" and "usable m t1 0"
    and "fetch apiKey v = Response 429 (Some text) stream"
    and "int t3 < int t2 + 60000"
  shows "response (api_chat fetch parse t1 t2 t3 m req_body) = Json 503 busy
    \<and> upstream_calls (api_chat fetch parse t1 t2 t3 m req_body) = [apiKey]"
proof -
  from assms(2,4) have g: "getNextAvailableKey m t1 = (Some apiKey, m\<lparr>currentKeyIndex := 0\<rparr>)"
    by (simp add: getNextAvailableKey_find chosen_def scan_order_def)
  let ?m2 = "markKeyAsRateLimited (m\<lparr>currentKeyIndex := 0\<rparr>) apiKey 60000 t2"
  from assms(2,6) have "fst (getNextAvailableKey ?m2 t3) = None"
    by (simp add: getNextAvailableKey_find chosen_def scan_order_def markKeyAsRateLimited_def
        usable_def or0_def)
  then obtain m3 where g3: "getNextAvailableKey ?m2 t3 = (None, m3)"
    by (cases "getNextAvailableKey ?m2 t3") auto
  from assms(1,3,5) g g3 show ?thesis
    by (simp add: api_chat_def with_key_def ok_def rate_limited_def)
qed

lemma ok_response_streams:
  assumes "chatRequestSchema_parse req_body = Some v"
    and "getNextAvailableKey m t1 = (Some apiKey, m1)" and "apiKey \<noteq> []"
    and "fetch apiKey v = Response status text (Some reads)" and "ok status"
  shows "api_chat fetch parse t1 t2 t3 m req_body
         = \<lparr>response = EventStream (relay parse reads), upstream_calls = [apiKey], manager = m1\<rparr>"
  using assms by (simp add: api_chat_def with_key_def)

section \<open>The key manager: round robin, penalties, frame conditions\<close>

text \<open>
  C4. From a pool of \<open>N \<ge> 1\<close> keys with no penalty recorded, \<open>N\<close> successive calls of
  \<open>getNextAvailableKey\<close> return the pool rotated to the cursor: every pool entry exactly
  once, none twice before all were returned. Every call, on any manager, returns the
  first usable key in scan order from the cursor and leaves the cursor just past the
  returned index, modulo the pool size (\<open>chosen\<close>).
\<close>

theorem getNextAvailableKey_round_robin:
  assumes "keys m \<noteq> []" and "keyRateLimitedUntil m = Map.empty"
    and "length ts = length (keys m)"
  shows "fst (run m (map GetNext ts)) = map (\<lambda>k. Key (Some k)) (rotate (currentKeyIndex m) (keys m))
    \<and> mset (fst (run m (map GetNext ts))) = mset (map (\<lambda>k. Key (Some k)) (keys m))
    \<and> (distinct (keys m) \<longrightarrow> distinct (fst (run m (map GetNext ts))))
    \<and> getNextAvailableKey m' now = chosen m' (find (usable m' now) (scan_order m'))"
proof -
  have r: "fst (run m (map GetNext ts)) = map (\<lambda>k. Key (Some k)) (rotate (currentKeyIndex m) (keys m))"
    using assms rotate_nth_map [of "keys m" "\<lambda>k. Key (Some k)" "currentKeyIndex m"]
    by (simp add: run_getNext_unpenalized)
  have d: "distinct (keys m) \<Longrightarrow> distinct (fst (run m (map GetNext ts)))"
    unfolding r by (simp add: distinct_map inj_on_def)
  show ?thesis
    using r d by (simp add: getNextAvailableKey_find mset_rotate_eq)
qed

theorem getNextAvailableKey_round_robin_witness:
  "fst (run \<lparr>keys = [''A'', ''B'', ''C''], currentKeyIndex = 1, keyRateLimitedUntil = Map.empty\<rparr>
        (map GetNext [5, 6, 7]))
     = [Key (Some ''B''), Key (Some ''C''), Key (Some ''A'')]"
proof -
  let ?m = "\<lparr>keys = [''A'', ''B'', ''C''], currentKeyIndex = 1, keyRateLimitedUntil = Map.empty\<rparr>"
  have "keys ?m \<noteq> []" and "keyRateLimitedUntil ?m = Map.empty"
    and "length [5, 6, 7 :: nat] = length (keys ?m)"
    by simp_all
  from getNextAvailableKey_round_robin [OF this]
  have "fst (run ?m (map GetNext [5, 6, 7])) =
      map (\<lambda>k. Key (Some k)) (rotate (currentKeyIndex ?m) (keys ?m))"
    by (rule conjunct1)
  also have "\<dots> = [Key (Some ''B''), Key (Some ''C''), Key (Some ''A'')]"
    by simp
  finally show ?thesis .
qed

text \<open>
  C5 (amended). After \<open>markKeyAsRateLimited m k d t\<close>, no call of
  \<open>getNextAvailableKey\<close> made at a time before \<open>t + d\<close> returns \<open>k\<close>, whatever calls
  come in between, provided \<open>k\<close> occurs at most once in the pool and no later penalty of \<open>k\<close>
  records an expiry before \<open>t + d\<close>.
\<close>

theorem penalized_key_not_returned:
  assumes "count_list (keys m) k \<le> 1"
    and "list_all (keeps_penalty k (int t + d)) cs"
    and "i < length cs" and "cs ! i = GetNext now" and "int now < int t + d"
  shows "fst (run (markKeyAsRateLimited m k d t) cs) ! i \<noteq> Key (Some k)"
  using assms run_penalized [of "markKeyAsRateLimited m k d t" k "int t + d" cs i now]
  by (simp add: penalized_after_mark)

theorem penalized_key_not_returned_witness:
  "fst (run (markKeyAsRateLimited
        \<lparr>keys = [''A'', ''B''], currentKeyIndex = 0, keyRateLimitedUntil = Map.empty\<rparr>
        ''A'' 60000 0)
      [GetNext 10, Penalize ''B'' 60000 20, Penalize ''A'' 60000 25, GetNext 30000]) ! 3
    \<noteq> Key (Some ''A'')"
proof -
  let ?m = "\<lparr>keys = [''A'', ''B''], currentKeyIndex = 0, keyRateLimitedUntil = Map.empty\<rparr>"
  let ?cs = "[GetNext 10, Penalize ''B'' 60000 20, Penalize ''A'' 60000 25, GetNext 30000]"
  have 1: "count_list (keys ?m) ''A'' \<le> 1" by simp
  have 2: "list_all (keeps_penalty ''A'' (int 0 + 60000)) ?cs" by simp
  have 3: "3 < length ?cs" by simp
  have 4: "?cs ! 3 = GetNext 30000" by simp
  have 5: "int 30000 < int 0 + 60000" by simp
  from penalized_key_not_returned [OF 1 2 3 4 5] show ?thesis .
qed

text \<open>
  Without the first proviso the property fails: the table is indexed by pool position and a
  penalty marks the first occurrence only, so a key held by two slots is handed out from
  the second slot 30 seconds into a 60 second penalty.
\<close>

theorem penalized_key_returned_counterexample:
  "fst (getNextAvailableKey
          (markKeyAsRateLimited
             \<lparr>keys = [''A'', ''A''], currentKeyIndex = 0, keyRateLimitedUntil = Map.empty\<rparr>
             ''A'' 60000 0)
          30000) = Some ''A'' \<and> int 30000 < int 0 + 60000"
  by (simp add: getNextAvailableKey_find chosen_def scan_order_def usable_def or0_def
      markKeyAsRateLimited_def upt_conv_Cons)

text \<open>
  C6. For a key of the pool, \<open>markKeyAsRateLimited\<close> sets the entry at the key's first index
  to \<open>now + duration\<close> whatever the entry was before; a second penalty replaces the first
  even when its expiry is earlier.
\<close>

theorem markKeyAsRateLimited_overwrites:
  assumes "key \<in> set (keys m)"
  shows "\<exists>i. indexOf (keys m) key = Some i \<and> i < length (keys m) \<and> keys m ! i = key
    \<and> keyRateLimitedUntil (markKeyAsRateLimited m key d now) i = Some (int now + d)
    \<and> keyRateLimitedUntil
         (markKeyAsRateLimited (markKeyAsRateLimited m key d now) key d' now') i
       = Some (int now' + d')"
proof -
  from assms obtain i where i: "indexOf (keys m) key = Some i"
    using indexOf_None [of "keys m" key] by (cases "indexOf (keys m) key") auto
  from indexOf_Some [OF i] i show ?thesis
    by (simp add: markKeyAsRateLimited_def)
qed

theorem markKeyAsRateLimited_overwrites_witness:
  "keyRateLimitedUntil
     (markKeyAsRateLimited
        (markKeyAsRateLimited
           \<lparr>keys = [''A'', ''B''], currentKeyIndex = 0, keyRateLimitedUntil = Map.empty\<rparr>
           ''A'' 60000 0)
        ''A'' 10 1) 0 = Some 11"
proof -
  let ?m = "\<lparr>keys = [''A'', ''B''], currentKeyIndex = 0, keyRateLimitedUntil = Map.empty\<rparr>"
  have "''A'' \<in> set (keys ?m)" by simp
  from markKeyAsRateLimited_overwrites [OF this, of 60000 0 10 1]
  show ?thesis by auto
qed

text \<open>
  C9. \<open>getNextAvailableKey\<close> changes the cursor only; \<open>markKeyAsRateLimited\<close> changes the
  table only, and there only the entry at the first index of the key, and changes nothing
  when the key is not in the pool; \<open>allKeysRateLimited\<close> changes nothing.
\<close>

theorem APIKeyManager_frame:
  "snd (getNextAvailableKey m now)
     = m\<lparr>currentKeyIndex := currentKeyIndex (snd (getNextAvailableKey m now))\<rparr>
   \<and> markKeyAsRateLimited m key d now
     = m\<lparr>keyRateLimitedUntil := keyRateLimitedUntil (markKeyAsRateLimited m key d now)\<rparr>
   \<and> (\<forall>j. indexOf (keys m) key \<noteq> Some j \<longrightarrow>
         keyRateLimitedUntil (markKeyAsRateLimited m key d now) j = keyRateLimitedUntil m j)
   \<and> (key \<notin> set (keys m) \<longrightarrow> markKeyAsRateLimited m key d now = m)
   \<and> snd (step m (AllLimited now)) = m"
proof -
  have 1: "snd (getNextAvailableKey m now)
     = m\<lparr>currentKeyIndex := currentKeyIndex (snd (getNextAvailableKey m now))\<rparr>"
    by (simp add: getNextAvailableKey_find chosen_def split: option.splits)
  have 2: "markKeyAsRateLimited m key d now
     = m\<lparr>keyRateLimitedUntil := keyRateLimitedUntil (markKeyAsRateLimited m key d now)\<rparr>"
    by (simp add: markKeyAsRateLimited_def split: option.splits)
  have 3: "indexOf (keys m) key \<noteq> Some j \<Longrightarrow>
      keyRateLimitedUntil (markKeyAsRateLimited m key d now) j = keyRateLimitedUntil m j" for j
    by (auto simp: markKeyAsRateLimited_def split: option.splits)
  have 4: "key \<notin> set (keys m) \<Longrightarrow> markKeyAsRateLimited m key d now = m"
    using indexOf_None [of "keys m" key] by (simp add: markKeyAsRateLimited_def)
  from 1 2 3 4 show ?thesis by simp
qed

theorem APIKeyManager_frame_witness:
  "markKeyAsRateLimited
     \<lparr>keys = [''A'', ''B''], currentKeyIndex = 1, keyRateLimitedUntil = Map.empty\<rparr> ''Z'' 60000 5
   = \<lparr>keys = [''A'', ''B''], currentKeyIndex = 1, keyRateLimitedUntil = Map.empty\<rparr>
   \<and> keyRateLimitedUntil (markKeyAsRateLimited
     \<lparr>keys = [''A'', ''B''], currentKeyIndex = 1, keyRateLimitedUntil = Map.empty\<rparr> ''A'' 60000 5) 1
     = None"
proof -
  let ?m = "\<lparr>keys = [''A'', ''B''], currentKeyIndex = 1, keyRateLimitedUntil = Map.empty\<rparr>"
  have a: "''Z'' \<notin> set (keys ?m)" by simp
  have b: "indexOf (keys ?m) ''A'' \<noteq> Some 1" by simp
  from APIKeyManager_frame [where m = ?m and key = "''Z''" and d = 60000 and now = 5] a
  have 1: "markKeyAsRateLimited ?m ''Z'' 60000 5 = ?m" by blast
  from APIKeyManager_frame [where m = ?m and key = "''A''" and d = 60000 and now = 5] b
  have 2: "keyRateLimitedUntil (markKeyAsRateLimited ?m ''A'' 60000 5) 1 = keyRateLimitedUntil ?m 1"
    by blast
  from 1 2 show ?thesis by simp
qed

section \<open>The relay: order, malformed fragments, content events\<close>

text \<open>
  C2 (amended). When every read but the last ends with a line feed, so that no data line
  spans two reads, the events written are those of the upstream lines in arrival order,
  the body is the concatenation of their frames, and there is one \<open>DONE\<close> sentinel for
  each upstream line \<open>data: [DONE]\<close>.
\<close>

theorem relay_whole_lines_in_order:
  assumes "ends_lines chunks"
  shows "relay parse (map Chunk chunks) = processLines parse (split_nl (concat chunks))
    \<and> body_bytes stringify (relay parse (map Chunk chunks))
        = concat (map (frame stringify) (processLines parse (split_nl (concat chunks))))
    \<and> length (filter (\<lambda>e. e = DoneEvent) (relay parse (map Chunk chunks)))
        = length (filter (\<lambda>l. l = ''data: [DONE]'') (split_nl (concat chunks)))"
  using relay_whole_lines [OF assms, of parse]
  by (simp add: body_bytes_def processLines_done)

theorem relay_whole_lines_in_order_witness:
  "ends_lines
     [token_line ''Hel'' @ [CHR 0x0A, CHR 0x0A],
      token_line ''lo'' @ [CHR 0x0A, CHR 0x0A] @ ''data: [DONE]'' @ [CHR 0x0A, CHR 0x0A]]
   \<and> relay JSON_parse
     (map Chunk [token_line ''Hel'' @ [CHR 0x0A, CHR 0x0A],
                 token_line ''lo'' @ [CHR 0x0A, CHR 0x0A] @ ''data: [DONE]'' @ [CHR 0x0A, CHR 0x0A]])
   = [ContentEvent (JString ''Hel''), ContentEvent (JString ''lo''), DoneEvent]"
proof -
  let ?cs = "[token_line ''Hel'' @ [CHR 0x0A, CHR 0x0A],
      token_line ''lo'' @ [CHR 0x0A, CHR 0x0A] @ ''data: [DONE]'' @ [CHR 0x0A, CHR 0x0A]]"
  have e: "ends_lines ?cs" by (simp add: ends_lines_def)
  from relay_whole_lines_in_order [OF e, of JSON_parse]
  have "relay JSON_parse (map Chunk ?cs) = processLines JSON_parse (split_nl (concat ?cs))"
    by blast
  also have "\<dots> = [ContentEvent (JString ''Hel''), ContentEvent (JString ''lo''), DoneEvent]"
    by code_simp
  finally show ?thesis using e by simp
qed

text \<open>
  The property does not extend to a data line that is split: each read is cut into lines on its
  own and nothing is carried over to the next read. The first part of the line does not
  parse and is skipped, the second part does not start with \<open>data: \<close>, and the increment
  is lost; the same bytes in one read are relayed in full.
\<close>

theorem split_line_lost_counterexample:
  "relay JSON_parse
     [Chunk ''data: {\"choices\":[{\"delta\":{\"con'',
      Chunk (''tent\":\"Hi\"}}]}'' @ [CHR 0x0A, CHR 0x0A] @ ''data: [DONE]'' @ [CHR 0x0A, CHR 0x0A])]
     = [DoneEvent]
   \<and> relay JSON_parse
     [Chunk (''data: {\"choices\":[{\"delta\":{\"con'' @
             ''tent\":\"Hi\"}}]}'' @ [CHR 0x0A, CHR 0x0A] @ ''data: [DONE]'' @ [CHR 0x0A, CHR 0x0A])]
     = [ContentEvent (JString ''Hi''), DoneEvent]"
  by code_simp

text \<open>
  C7. A data line that does not parse writes nothing and stops nothing: the events are
  those of the stream without that line, whatever comes before and after it. One
  unparsable fragment followed by two valid ones gives exactly the two content events.
\<close>

theorem malformed_fragment_skipped:
  assumes "parse bad = None" and "bad \<noteq> ''[DONE]''" and "CHR 0x0A \<notin> set bad"
  shows "processLines parse (pre @ (''data: '' @ bad) # post) = processLines parse (pre @ post)
    \<and> relay parse (before @ Chunk (''data: '' @ bad @ [CHR 0x0A]) # after)
        = relay parse (before @ after)"
  using assms processLine_unparsable [of parse bad]
    relay_drop_empty_chunk [of parse "''data: '' @ bad @ [CHR 0x0A]" before after]
    processChunk_unparsable [of parse bad]
  by (simp add: processLines_Cons)

theorem malformed_fragment_skipped_witness:
  "relay JSON_parse
     [Chunk (''data: {oops'' @ [CHR 0x0A]),
      Chunk (token_line ''Hel'' @ [CHR 0x0A]),
      Chunk (token_line ''lo'' @ [CHR 0x0A])]
   = [ContentEvent (JString ''Hel''), ContentEvent (JString ''lo'')]"
proof -
  let ?after = "[Chunk (token_line ''Hel'' @ [CHR 0x0A]), Chunk (token_line ''lo'' @ [CHR 0x0A])]"
  have 1: "JSON_parse ''{oops'' = None" by code_simp
  have 2: "''{oops'' \<noteq> ''[DONE]''" by simp
  have 3: "CHR 0x0A \<notin> set ''{oops''" by simp
  from malformed_fragment_skipped
    [where parse = JSON_parse and bad = "''{oops''" and before = "[]" and after = ?after] 1 2 3
  have "relay JSON_parse ([] @ Chunk (''data: '' @ ''{oops'' @ [CHR 0x0A]) # ?after)
      = relay JSON_parse ([] @ ?after)"
    by blast
  moreover have "relay JSON_parse ([] @ ?after)
      = [ContentEvent (JString ''Hel''), ContentEvent (JString ''lo'')]"
    by code_simp
  ultimately show ?thesis by simp
qed

text \<open>
  C10 (amended). Every content event is written for a value that passed the truthiness
  test, so never for \<open>null\<close> and never for the empty string, and a delta whose content is
  absent, \<open>null\<close> or the empty string writes nothing. Every truthy content, of any JSON
  type, writes one event carrying it; of the values so written \<open>JSON.stringify\<close> renders
  as \<open>null\<close> exactly the numbers beyond the double range.
\<close>

theorem content_events_truthy:
  "list_all truthy_content (relay parse reads)
   \<and> ContentEvent (JString []) \<notin> set (relay parse reads)
   \<and> ContentEvent JNull \<notin> set (relay parse reads)
   \<and> (\<forall>v. ContentEvent v \<in> set (relay parse reads) \<longrightarrow>
         (renders_null v \<longleftrightarrow> (\<exists>negative. v = JNumber (Infinite negative))))
   \<and> (drop 6 line \<noteq> ''[DONE]'' \<and> parse (drop 6 line) = Some parsed \<and>
        (delta_content parsed = Some None \<or> delta_content parsed = Some (Some JNull)
         \<or> delta_content parsed = Some (Some (JString [])))
       \<longrightarrow> processLine parse line = [])
   \<and> (startsWith line ''data: '' \<and> drop 6 line \<noteq> ''[DONE]'' \<and>
        parse (drop 6 line) = Some parsed \<and> delta_content parsed = Some (Some c) \<and> truthy c
       \<longrightarrow> processLine parse line = [ContentEvent c])"
proof -
  have t: "list_all truthy_content (relay parse reads)" by (rule relay_truthy)
  have 1: "ContentEvent (JString []) \<notin> set (relay parse reads)"
  proof
    assume "ContentEvent (JString []) \<in> set (relay parse reads)"
    with t have "truthy_content (ContentEvent (JString []))" by (auto simp: list_all_iff)
    then show False by simp
  qed
  have 2: "ContentEvent JNull \<notin> set (relay parse reads)"
  proof
    assume "ContentEvent JNull \<in> set (relay parse reads)"
    with t have "truthy_content (ContentEvent JNull)" by (auto simp: list_all_iff)
    then show False by simp
  qed
  have 3: "renders_null v \<longleftrightarrow> (\<exists>negative. v = JNumber (Infinite negative))"
    if "ContentEvent v \<in> set (relay parse reads)" for v
  proof -
    from that t have "truthy_content (ContentEvent v)" by (auto simp: list_all_iff)
    then have "truthy v" by simp
    then show ?thesis by (cases v rule: renders_null.cases) simp_all
  qed
  have 4: "drop 6 line \<noteq> ''[DONE]'' \<and> parse (drop 6 line) = Some parsed \<and>
        (delta_content parsed = Some None \<or> delta_content parsed = Some (Some JNull)
         \<or> delta_content parsed = Some (Some (JString [])))
       \<longrightarrow> processLine parse line = []"
    by (auto simp: processLine_def Let_def)
  have 5: "startsWith line ''data: '' \<and> drop 6 line \<noteq> ''[DONE]'' \<and>
        parse (drop 6 line) = Some parsed \<and> delta_content parsed = Some (Some c) \<and> truthy c
       \<longrightarrow> processLine parse line = [ContentEvent c]"
    by (simp add: processLine_def Let_def)
  from t 1 2 3 4 5 show ?thesis by blast
qed

theorem content_events_truthy_witness:
  "processLine JSON_parse (token_line []) = []
   \<and> processLine JSON_parse ''data: {\"choices\":[{\"delta\":{\"content\":null}}]}'' = []
   \<and> processLine JSON_parse ''data: {\"choices\":[{\"delta\":{\"role\":\"assistant\"}}]}'' = []
   \<and> processLine JSON_parse ''data: {\"choices\":[{\"delta\":{\"content\":1e400}}]}''
       = [ContentEvent (JNumber (Infinite False))]"
proof -
  have n: "drop 6 (token_line []) \<noteq> ''[DONE]''"
    "drop 6 ''data: {\"choices\":[{\"delta\":{\"content\":null}}]}'' \<noteq> ''[DONE]''"
    "drop 6 ''data: {\"choices\":[{\"delta\":{\"role\":\"assistant\"}}]}'' \<noteq> ''[DONE]''"
    "drop 6 ''data: {\"choices\":[{\"delta\":{\"content\":1e400}}]}'' \<noteq> ''[DONE]''"
    by (simp_all add: token_line_def)
  have a: "JSON_parse (drop 6 (token_line []))
      = Some (JObject [(''choices'', JArray [JObject [(''delta'', JObject [(''content'', JString [])])]])])"
    by code_simp
  have a': "delta_content (JObject [(''choices'', JArray [JObject [(''delta'', JObject [(''content'', JString [])])]])])
      = Some (Some (JString []))"
    by (simp add: delta_content_def optional_chain_def)
  have b: "JSON_parse (drop 6 ''data: {\"choices\":[{\"delta\":{\"content\":null}}]}'')
      = Some (JObject [(''choices'', JArray [JObject [(''delta'', JObject [(''content'', JNull)])]])])"
    by code_simp
  have b': "delta_content (JObject [(''choices'', JArray [JObject [(''delta'', JObject [(''content'', JNull)])]])])
      = Some (Some JNull)"
    by (simp add: delta_content_def optional_chain_def)
  have c: "JSON_parse (drop 6 ''data: {\"choices\":[{\"delta\":{\"role\":\"assistant\"}}]}'')
      = Some (JObject [(''choices'', JArray [JObject [(''delta'', JObject [(''role'', JString ''assistant'')])]])])"
    by code_simp
  have c': "delta_content (JObject [(''choices'', JArray [JObject [(''delta'', JObject [(''role'', JString ''assistant'')])]])])
      = Some None"
    by (simp add: delta_content_def optional_chain_def)
  have d: "JSON_parse (drop 6 ''data: {\"choices\":[{\"delta\":{\"content\":1e400}}]}'')
      = Some (JObject [(''choices'', JArray [JObject [(''delta'',
          JObject [(''content'', JNumber (Infinite False))])]])])"
    by code_simp
  have d': "delta_content (JObject [(''choices'', JArray [JObject [(''delta'',
          JObject [(''content'', JNumber (Infinite False))])]])])
      = Some (Some (JNumber (Infinite False)))"
    by (simp add: delta_content_def optional_chain_def)
  have d'': "startsWith ''data: {\"choices\":[{\"delta\":{\"content\":1e400}}]}'' ''data: ''"
    "truthy (JNumber (Infinite False))"
    by (simp_all add: startsWith_data)
  from content_events_truthy [where parse = JSON_parse and line = "token_line []"] a a' n
  have 1: "processLine JSON_parse (token_line []) = []" by blast
  from content_events_truthy [where parse = JSON_parse
      and line = "''data: {\"choices\":[{\"delta\":{\"content\":null}}]}''"] b b' n
  have 2: "processLine JSON_parse ''data: {\"choices\":[{\"delta\":{\"content\":null}}]}'' = []"
    by blast
  from content_events_truthy [where parse = JSON_parse
      and line = "''data: {\"choices\":[{\"delta\":{\"role\":\"assistant\"}}]}''"] c c' n
  have 3: "processLine JSON_parse ''data: {\"choices\":[{\"delta\":{\"role\":\"assistant\"}}]}'' = []"
    by blast
  from content_events_truthy [where parse = JSON_parse
      and line = "''data: {\"choices\":[{\"delta\":{\"content\":1e400}}]}''"
      and c = "JNumber (Infinite False)"] d d' d'' n
  have 4: "processLine JSON_parse ''data: {\"choices\":[{\"delta\":{\"content\":1e400}}]}''
       = [ContentEvent (JNumber (Infinite False))]"
    by blast
  from 1 2 3 4 show ?thesis by simp
qed

text \<open>
  The value carried need not be a string: the test is truthiness, and a numeric content
  is written as a number.
\<close>

theorem content_event_not_string_counterexample:
  "relay JSON_parse [Chunk (''data: {\"choices\":[{\"delta\":{\"content\":5}}]}'' @ [CHR 0x0A])]
     = [ContentEvent (JNumber (Finite 5 0))]
   \<and> \<not> list_all string_content
        (relay JSON_parse [Chunk (''data: {\"choices\":[{\"delta\":{\"content\":5}}]}'' @ [CHR 0x0A])])"
  by code_simp

section \<open>The handler: validation, exhaustion, rate limits\<close>

text \<open>
  C8. A request whose body fails the schema is answered with status 400, no upstream call
  is made and the key manager is as it was. A missing or empty \<open>message\<close> and a
  \<open>conversationHistory\<close> that is not an array fail the schema, as does an absent body.
\<close>

theorem invalid_request_rejected:
  "(chatRequestSchema_parse req_body = None \<longrightarrow>
      api_chat fetch parse t1 t2 t3 m req_body
        = \<lparr>response = Json 400 (ErrorMessage ZodError), upstream_calls = [], manager = m\<rparr>)
   \<and> chatRequestSchema_parse None = None
   \<and> (get_prop ''message'' b = None \<or> get_prop ''message'' b = Some (JString [])
        \<or> (\<exists>v. get_prop ''conversationHistory'' b = Some v \<and> (\<forall>xs. v \<noteq> JArray xs))
      \<longrightarrow> chatRequestSchema_parse (Some b) = None)"
  using schema_rejects [of b]
  by (simp add: api_chat_def chatRequestSchema_parse_def)

theorem invalid_request_rejected_witness:
  "api_chat (\<lambda>apiKey validatedData. FetchThrows) JSON_parse 1000 1000 1000
      \<lparr>keys = [''A'', ''B''], currentKeyIndex = 1, keyRateLimitedUntil = Map.empty\<rparr>
      (Some (JObject [(''message'', JString [])]))
    = \<lparr>response = Json 400 (ErrorMessage ZodError), upstream_calls = [],
       manager = \<lparr>keys = [''A'', ''B''], currentKeyIndex = 1, keyRateLimitedUntil = Map.empty\<rparr>\<rparr>"
proof -
  let ?b = "JObject [(''message'', JString [])]"
  have e: "get_prop ''message'' ?b = Some (JString [])" by simp
  from invalid_request_rejected [where b = ?b] e
  have r: "chatRequestSchema_parse (Some ?b) = None" by blast
  from invalid_request_rejected
    [where req_body = "Some ?b" and fetch = "\<lambda>apiKey validatedData. FetchThrows"
       and parse = JSON_parse and ?t1.0 = 1000 and ?t2.0 = 1000 and ?t3.0 = 1000] r
  show ?thesis by blast
qed

text \<open>
  C1. With two usable keys and an upstream that answers 429 to the first and would answer
  200 to the second, the handler penalises the first key, takes the second from the pool,
  and answers 429 without a second upstream call.
\<close>

theorem rate_limit_no_retry:
  "api_chat
     (\<lambda>apiKey validatedData.
        if apiKey = ''A'' then Response 429 (Some ''rate limited'') None
        else Response 200 None (Some [Chunk (token_line ''Hi'' @ [CHR 0x0A])]))
     parse 1000 1000 1000
     \<lparr>keys = [''A'', ''B''], currentKeyIndex = 0, keyRateLimitedUntil = Map.empty\<rparr>
     (Some (JObject [(''message'', JString ''hello'')]))
   = \<lparr>response = Json 429 upstream_failed, upstream_calls = [''A''],
      manager = \<lparr>keys = [''A'', ''B''], currentKeyIndex = 0,
                  keyRateLimitedUntil = [0 \<mapsto> 61000]\<rparr>\<rparr>"
  by (simp add: api_chat_def chatRequestSchema_parse_def history_field_def id_field_def
      getNextAvailableKey_find chosen_def scan_order_def usable_def or0_def upt_conv_Cons
      with_key_def ok_def rate_limited_def markKeyAsRateLimited_def)

text \<open>
  C3. With no key configured, \<open>allKeysRateLimited\<close> holds of the empty pool, and a valid
  request is answered with status 503 and the \<open>rateLimited\<close> flag.
\<close>

theorem empty_pool_reported_busy:
  "api_chat fetch parse t1 t2 t3 (constructor Map.empty)
     (Some (JObject [(''message'', JString ''hello'')]))
   = \<lparr>response = Json 503 busy, upstream_calls = [], manager = constructor Map.empty\<rparr>"
  by (simp add: api_chat_def chatRequestSchema_parse_def history_field_def id_field_def
      constructor_def slot_names_def truthy_env_def getNextAvailableKey_def no_key_def
      allKeysRateLimited_def)

end
